theory Spec2Isabelle
  imports Complex_Main "HOL-Library.Multiset"
begin

section \<open>Python floats\<close>

text \<open>
  Timestamps are Python floats: IEEE-754 binary64 values. A finite float is modelled by the
  real number it denotes, next to the two infinities and NaN. Every arithmetic result is
  rounded to the nearest binary64 value, ties to the even significand, as the hardware does.
  The sign of zero is not modelled (Python's \<open>==\<close> does not see it either).
\<close>

datatype pyfloat = Fin real | PInf | NInf | NaN

text \<open>Rounding a real to the nearest integer, halves to the even neighbour.\<close>

definition half_even :: "real \<Rightarrow> int" where
  "half_even x =
     (let f = \<lfloor>x\<rfloor>; d = x - of_int f
      in if d < 1 / 2 then f else if 1 / 2 < d then f + 1
         else if even f then f else f + 1)"

text \<open>
  \<open>binary_exponent x 0\<close> is the exponent \<open>e\<close> with \<open>2^e \<le> x < 2^(e+1)\<close> of a positive \<open>x\<close>,
  not below \<open>-1022\<close>, the exponent of the subnormal numbers.
\<close>

function binary_exponent :: "real \<Rightarrow> int \<Rightarrow> int" where
  "binary_exponent x e =
     (if 2 \<le> x then binary_exponent (x / 2) (e + 1)
      else if 0 < x \<and> x < 1 \<and> - 1022 < e then binary_exponent (2 * x) (e - 1)
      else e)"
  by pat_completeness auto
termination
proof (relation "measures [\<lambda>(x, e). if 2 \<le> x then nat \<lceil>x\<rceil> else 0, \<lambda>(x, e). nat (e + 1022)]")
  show "wf (measures [\<lambda>(x, e). if 2 \<le> x then nat \<lceil>x\<rceil> else 0, \<lambda>(x, e). nat (e + 1022)])"
    by simp
next
  fix x :: real and e :: int
  assume big: "2 \<le> x"
  have "x / 2 \<le> x - 1"
    using big by simp
  then have "\<lceil>x / 2\<rceil> \<le> \<lceil>x - 1\<rceil>"
    by (rule ceiling_mono)
  also have "\<dots> = \<lceil>x\<rceil> - 1"
    by simp
  finally have less: "\<lceil>x / 2\<rceil> < \<lceil>x\<rceil>"
    by simp
  have "0 < \<lceil>x\<rceil>"
    using big by (simp add: less_ceiling_iff)
  with less big
  show "((x / 2, e + 1), (x, e))
      \<in> measures [\<lambda>(x, e). if 2 \<le> x then nat \<lceil>x\<rceil> else 0, \<lambda>(x, e). nat (e + 1022)]"
    by auto
next
  fix x :: real and e :: int
  assume "\<not> 2 \<le> x" and "0 < x \<and> x < 1 \<and> - 1022 < e"
  then show "((2 * x, e - 1), (x, e))
      \<in> measures [\<lambda>(x, e). if 2 \<le> x then nat \<lceil>x\<rceil> else 0, \<lambda>(x, e). nat (e + 1022)]"
    by auto
qed

declare binary_exponent.simps [simp del]

text \<open>
  The binary64 value nearest to a real: 53 significant bits, so the spacing of the floats
  around \<open>x\<close> is \<open>2^(e - 52)\<close>; a result of magnitude \<open>2^1024\<close> or more overflows to an
  infinity.
\<close>

definition fl_of :: "real \<Rightarrow> pyfloat" where
  "fl_of x =
     (if x = 0 then Fin 0
      else let e = binary_exponent \<bar>x\<bar> 0;
               u = 2 powi (e - 52);
               r = of_int (half_even (x / u)) * u
           in if 2 powi 1024 \<le> \<bar>r\<bar> then (if 0 < x then PInf else NInf) else Fin r)"

fun fneg :: "pyfloat \<Rightarrow> pyfloat" where
  "fneg (Fin a) = Fin (- a)"
| "fneg PInf = NInf"
| "fneg NInf = PInf"
| "fneg NaN = NaN"

text \<open>Python's \<open>a + b\<close> on floats.\<close>

fun fadd :: "pyfloat \<Rightarrow> pyfloat \<Rightarrow> pyfloat" where
  "fadd (Fin a) (Fin b) = fl_of (a + b)"
| "fadd NaN _ = NaN"
| "fadd _ NaN = NaN"
| "fadd PInf NInf = NaN"
| "fadd NInf PInf = NaN"
| "fadd PInf _ = PInf"
| "fadd NInf _ = NInf"
| "fadd (Fin a) PInf = PInf"
| "fadd (Fin a) NInf = NInf"

text \<open>Python's \<open>a - b\<close> on floats.\<close>

definition fsub :: "pyfloat \<Rightarrow> pyfloat \<Rightarrow> pyfloat" where
  "fsub a b = fadd a (fneg b)"

text \<open>Python's \<open>a < b\<close> on floats: false whenever a NaN is involved.\<close>

fun flt :: "pyfloat \<Rightarrow> pyfloat \<Rightarrow> bool" where
  "flt (Fin a) (Fin b) = (a < b)"
| "flt NaN _ = False"
| "flt _ NaN = False"
| "flt _ NInf = False"
| "flt PInf _ = False"
| "flt NInf _ = True"
| "flt (Fin a) PInf = True"


text \<open>
  Python's \<open>round(x, 2)\<close> on a float: the exact value of \<open>x\<close> is rounded to two decimal
  places, halves to the even digit, and the float nearest to that decimal is returned;
  infinities and NaN round to themselves.
\<close>

fun py_round2 :: "pyfloat \<Rightarrow> pyfloat" where
  "py_round2 (Fin x) = fl_of (of_int (half_even (x * 100)) / 100)"
| "py_round2 PInf = PInf"
| "py_round2 NInf = NInf"
| "py_round2 NaN = NaN"

section \<open>Data\<close>

text \<open>A pyannote \<open>Segment\<close>: the attributes \<open>start\<close> and \<open>end\<close> (a reserved word here).\<close>

record segment =
  start :: pyfloat
  end_t :: pyfloat

text \<open>
  One item of \<open>diarization.itertracks(yield_label=True)\<close>: the segment, the track name and
  the speaker label.
\<close>

type_synonym track = "segment \<times> string \<times> string"

text \<open>The dictionary appended to \<open>interruptions\<close>.\<close>

record interruption =
  time :: pyfloat
  interrupter :: string
  interrupted :: string
  overlap_duration :: pyfloat

text \<open>
  \<open>speaking_times\<close> is a \<open>defaultdict(float)\<close>. A Python dictionary keeps its keys in
  insertion order, so it is an association list with distinct keys: assigning to a present
  key keeps its place, a new key goes to the end.
\<close>

type_synonym speaking = "(string \<times> pyfloat) list"

fun setitem :: "string \<Rightarrow> pyfloat \<Rightarrow> speaking \<Rightarrow> speaking" where
  "setitem k v [] = [(k, v)]"
| "setitem k v ((k', v') # d) = (if k' = k then (k, v) # d else (k', v') # setitem k v d)"

text \<open>Reading a key of the \<open>defaultdict(float)\<close>: a missing key reads as \<open>float()\<close>, 0.0.\<close>

definition getitem :: "speaking \<Rightarrow> string \<Rightarrow> pyfloat" where
  "getitem d k = (case map_of d k of None \<Rightarrow> Fin 0 | Some v \<Rightarrow> v)"

text \<open>\<open>speaking_times[speaker] += duration\<close>\<close>

definition iadd :: "speaking \<Rightarrow> string \<Rightarrow> pyfloat \<Rightarrow> speaking" where
  "iadd d k v = setitem k (fadd (getitem d k) v) d"

record report =
  total_speakers :: nat
  speaking_times :: speaking
  total_interruptions :: nat
  interruptions :: "interruption list"

section \<open>app.py\<close>

text \<open>The body of \<open>for i in range(len(segments))\<close>, on the pair of the two accumulators.\<close>

definition app_body :: "track list \<Rightarrow> nat \<Rightarrow> speaking \<times> interruption list \<Rightarrow> speaking \<times> interruption list" where
  "app_body segments i st =
     (case segments ! i of (turn, _, speaker) \<Rightarrow>
        let totals = iadd (fst st) speaker (fsub (end_t turn) (start turn))
        in if 0 < i then
             (case segments ! (i - 1) of (prev_turn, _, prev_speaker) \<Rightarrow>
                if flt (start turn) (end_t prev_turn) \<and> speaker \<noteq> prev_speaker
                then (totals, snd st @
                       [\<lparr>time = py_round2 (start turn),
                         interrupter = speaker,
                         interrupted = prev_speaker,
                         overlap_duration = py_round2 (fsub (end_t prev_turn) (start turn))\<rparr>])
                else (totals, snd st))
           else (totals, snd st))"

function app_loop :: "track list \<Rightarrow> nat \<Rightarrow> speaking \<times> interruption list \<Rightarrow> speaking \<times> interruption list" where
  "app_loop segments i st =
     (if i < length segments then app_loop segments (Suc i) (app_body segments i st) else st)"
  by pat_completeness auto
termination
  by (relation "measure (\<lambda>(segments, i, st). length segments - i)") auto

declare app_loop.simps [simp del]

text \<open>The two accumulators start empty.\<close>

definition app_analysis :: "track list \<Rightarrow> speaking \<times> interruption list" where
  "app_analysis segments = app_loop segments 0 ([], [])"

text \<open>The \<open>report\<close> dictionary.\<close>

definition format_report :: "speaking \<Rightarrow> interruption list \<Rightarrow> report" where
  "format_report totals ints =
     \<lparr>total_speakers = length totals,
      speaking_times = map (\<lambda>(spk, t). (spk, py_round2 t)) totals,
      total_interruptions = length ints,
      interruptions = ints\<rparr>"

definition app_report :: "track list \<Rightarrow> report" where
  "app_report segments = (case app_analysis segments of (totals, ints) \<Rightarrow> format_report totals ints)"

text \<open>
  The CSV export hands a pandas \<open>DataFrame\<close> to \<open>to_csv(index=False)\<close>. A frame is its column
  names and its rows; the file is the header line followed by one line per row. How pandas
  prints a cell is not part of the repository and is left out.
\<close>

datatype cell = Number pyfloat | Text string

record dataframe =
  columns :: "string list"
  rows :: "cell list list"

text \<open>
  \<open>pd.DataFrame(interruptions)\<close> on a list of dictionaries: the columns are the keys of the
  dictionaries, here always the same four in the same order; an empty list gives no column.
\<close>

definition DataFrame :: "interruption list \<Rightarrow> dataframe" where
  "DataFrame ints =
     \<lparr>columns = (if ints = [] then []
                 else [''time'', ''interrupter'', ''interrupted'', ''overlap_duration'']),
      rows = map (\<lambda>r. [Number (time r), Text (interrupter r), Text (interrupted r),
                        Number (overlap_duration r)]) ints\<rparr>"

text \<open>\<open>pd.DataFrame(columns=[...])\<close>\<close>

definition DataFrame_columns :: "string list \<Rightarrow> dataframe" where
  "DataFrame_columns cols = \<lparr>columns = cols, rows = []\<rparr>"

definition to_csv :: "dataframe \<Rightarrow> cell list list" where
  "to_csv df = map Text (columns df) # rows df"

text \<open>The lines written to \<open>interruptions.csv\<close>; a non-empty list is true in Python.\<close>

definition app_csv :: "interruption list \<Rightarrow> cell list list" where
  "app_csv ints =
     (if ints \<noteq> [] then to_csv (DataFrame ints)
      else to_csv (DataFrame_columns
             [''time'', ''interrupter'', ''interrupted'', ''overlap_duration'']))"

section \<open>voice_ai_agent.py\<close>

text \<open>
  The analysis loop of \<open>main\<close>, reached once the token, the pipeline and the audio file are
  there; before that \<open>main\<close> returns without analysing anything.
\<close>

definition agent_body :: "track list \<Rightarrow> nat \<Rightarrow> speaking \<times> interruption list \<Rightarrow> speaking \<times> interruption list" where
  "agent_body segments i st =
     (case segments ! i of (turn, _, speaker) \<Rightarrow>
        let totals = iadd (fst st) speaker (fsub (end_t turn) (start turn))
        in if 0 < i then
             (case segments ! (i - 1) of (prev_turn, _, prev_speaker) \<Rightarrow>
                if flt (start turn) (end_t prev_turn) \<and> speaker \<noteq> prev_speaker
                then (totals, snd st @
                       [\<lparr>time = py_round2 (start turn),
                         interrupter = speaker,
                         interrupted = prev_speaker,
                         overlap_duration = py_round2 (fsub (end_t prev_turn) (start turn))\<rparr>])
                else (totals, snd st))
           else (totals, snd st))"

function agent_loop :: "track list \<Rightarrow> nat \<Rightarrow> speaking \<times> interruption list \<Rightarrow> speaking \<times> interruption list" where
  "agent_loop segments i st =
     (if i < length segments then agent_loop segments (Suc i) (agent_body segments i st) else st)"
  by pat_completeness auto
termination
  by (relation "measure (\<lambda>(segments, i, st). length segments - i)") auto

declare agent_loop.simps [simp del]

definition agent_analysis :: "track list \<Rightarrow> speaking \<times> interruption list" where
  "agent_analysis segments = agent_loop segments 0 ([], [])"

definition agent_report :: "track list \<Rightarrow> report" where
  "agent_report segments =
     (case agent_analysis segments of (totals, ints) \<Rightarrow> format_report totals ints)"

section \<open>voice_ai_agent_custom.py\<close>

text \<open>
  \<open>analyze_speakers_and_interruptions\<close> iterates over whatever the segmentation yields,
  keeps the tuples whose first component has the attributes \<open>start\<close> and \<open>end\<close>, and
  ignores the rest. An object is a \<open>Segment\<close> or something without these attributes (the
  score array, a label), kept apart by a name.
\<close>

datatype pyobj = SegmentObj segment | OtherObj string

datatype item = Tuple "pyobj list" | NotTuple pyobj

text \<open>The dictionary with the keys \<open>start\<close>, \<open>end\<close> and \<open>speaker\<close>.\<close>

record entry =
  entry_start :: pyfloat
  entry_end :: pyfloat
  entry_speaker :: string

text \<open>The format specification \<open>02d\<close>: decimal digits, padded with zeros to two places.\<close>

definition digit :: "nat \<Rightarrow> char" where
  "digit d = ''0123456789'' ! d"

fun decimal :: "nat \<Rightarrow> string" where
  "decimal n = (if n < 10 then [digit n] else decimal (n div 10) @ [digit (n mod 10)])"

declare decimal.simps [simp del]

definition format_02d :: "nat \<Rightarrow> string" where
  "format_02d n = replicate (2 - length (decimal n)) (CHR ''0'') @ decimal n"

definition speaker_label :: "nat \<Rightarrow> string" where
  "speaker_label n = ''SPEAKER_'' @ format_02d n"

text \<open>The loop \<open>for item in segmentation\<close>, on the list \<open>segments\<close> built so far.\<close>

fun convert :: "item list \<Rightarrow> entry list \<Rightarrow> entry list" where
  "convert [] segments = segments"
| "convert (it # rest) segments =
     convert rest
       (case it of
          Tuple (segment_obj # _) \<Rightarrow>
            (case segment_obj of
               SegmentObj s \<Rightarrow>
                 segments @ [\<lparr>entry_start = start s, entry_end = end_t s,
                               entry_speaker = speaker_label (length segments)\<rparr>]
             | OtherObj _ \<Rightarrow> segments)
        | Tuple [] \<Rightarrow> segments
        | NotTuple _ \<Rightarrow> segments)"

text \<open>The body of \<open>for i, segment in enumerate(segments)\<close>.\<close>

definition custom_body :: "entry list \<Rightarrow> nat \<Rightarrow> speaking \<times> interruption list \<Rightarrow> speaking \<times> interruption list" where
  "custom_body segments i st =
     (let segment = segments ! i;
          speaker = entry_speaker segment;
          duration = fsub (entry_end segment) (entry_start segment);
          totals = iadd (fst st) speaker duration
      in if 0 < i then
           (let prev_segment = segments ! (i - 1)
            in if flt (entry_start segment) (entry_end prev_segment)
               then (let overlap = fsub (entry_end prev_segment) (entry_start segment)
                     in (totals, snd st @
                          [\<lparr>time = py_round2 (entry_start segment),
                            interrupter = speaker,
                            interrupted = entry_speaker prev_segment,
                            overlap_duration = py_round2 overlap\<rparr>]))
               else (totals, snd st))
         else (totals, snd st))"

function custom_loop :: "entry list \<Rightarrow> nat \<Rightarrow> speaking \<times> interruption list \<Rightarrow> speaking \<times> interruption list" where
  "custom_loop segments i st =
     (if i < length segments then custom_loop segments (Suc i) (custom_body segments i st) else st)"
  by pat_completeness auto
termination
  by (relation "measure (\<lambda>(segments, i, st). length segments - i)") auto

declare custom_loop.simps [simp del]

definition analyze_speakers_and_interruptions :: "item list \<Rightarrow> speaking \<times> interruption list" where
  "analyze_speakers_and_interruptions segmentation = custom_loop (convert segmentation []) 0 ([], [])"

definition custom_report :: "item list \<Rightarrow> report" where
  "custom_report segmentation =
     (case analyze_speakers_and_interruptions segmentation of
        (totals, ints) \<Rightarrow> format_report totals ints)"

section \<open>The loops as folds\<close>

text \<open>
  What one pass of a loop does to each accumulator, written on the list instead of the
  index: the totals are a left fold over the turns, the interruptions a scan of the adjacent
  pairs.
\<close>

definition add_turn :: "speaking \<Rightarrow> track \<Rightarrow> speaking" where
  "add_turn d seg =
     (case seg of (turn, _, speaker) \<Rightarrow> iadd d speaker (fsub (end_t turn) (start turn)))"

definition pair_event :: "track \<Rightarrow> track \<Rightarrow> interruption list" where
  "pair_event prev cur =
     (case prev of (prev_turn, _, prev_speaker) \<Rightarrow>
      case cur of (turn, _, speaker) \<Rightarrow>
        if flt (start turn) (end_t prev_turn) \<and> speaker \<noteq> prev_speaker
        then [\<lparr>time = py_round2 (start turn),
               interrupter = speaker,
               interrupted = prev_speaker,
               overlap_duration = py_round2 (fsub (end_t prev_turn) (start turn))\<rparr>]
        else [])"

definition events_from :: "track list \<Rightarrow> nat \<Rightarrow> interruption list" where
  "events_from segments i =
     concat (map (\<lambda>j. pair_event (segments ! (j - 1)) (segments ! j))
               [max 1 i..<length segments])"

definition turn_speaker :: "track \<Rightarrow> string" where
  "turn_speaker seg = (case seg of (_, _, speaker) \<Rightarrow> speaker)"

definition turn_duration :: "track \<Rightarrow> pyfloat" where
  "turn_duration seg = (case seg of (turn, _, _) \<Rightarrow> fsub (end_t turn) (start turn))"

text \<open>The same for the loop of the custom script, on its dictionaries.\<close>

definition add_entry :: "speaking \<Rightarrow> entry \<Rightarrow> speaking" where
  "add_entry d e = iadd d (entry_speaker e) (fsub (entry_end e) (entry_start e))"

definition entry_event :: "entry \<Rightarrow> entry \<Rightarrow> interruption list" where
  "entry_event prev cur =
     (if flt (entry_start cur) (entry_end prev)
      then [\<lparr>time = py_round2 (entry_start cur),
             interrupter = entry_speaker cur,
             interrupted = entry_speaker prev,
             overlap_duration = py_round2 (fsub (entry_end prev) (entry_start cur))\<rparr>]
      else [])"

definition entry_events_from :: "entry list \<Rightarrow> nat \<Rightarrow> interruption list" where
  "entry_events_from segments i =
     concat (map (\<lambda>j. entry_event (segments ! (j - 1)) (segments ! j))
               [max 1 i..<length segments])"

text \<open>The segments that the conversion loop keeps, and the labels it gives them in turn.\<close>

fun accepted_segments :: "item list \<Rightarrow> segment list" where
  "accepted_segments [] = []"
| "accepted_segments (Tuple (SegmentObj s # _) # rest) = s # accepted_segments rest"
| "accepted_segments (_ # rest) = accepted_segments rest"

fun label_from :: "nat \<Rightarrow> segment list \<Rightarrow> entry list" where
  "label_from n [] = []"
| "label_from n (s # ss) =
     \<lparr>entry_start = start s, entry_end = end_t s, entry_speaker = speaker_label n\<rparr>
       # label_from (Suc n) ss"

subsection \<open>app.py and voice_ai_agent.py\<close>

lemma app_body_eq:
  "app_body segments i (d, ints) =
     (add_turn d (segments ! i),
      ints @ (if 0 < i then pair_event (segments ! (i - 1)) (segments ! i) else []))"
  by (simp add: app_body_def add_turn_def pair_event_def Let_def split: prod.splits)

lemma events_from_step:
  assumes "i < length segments"
  shows "events_from segments i =
     (if 0 < i then pair_event (segments ! (i - 1)) (segments ! i) else [])
       @ events_from segments (Suc i)"
proof (cases "0 < i")
  case True
  then have "max 1 i = i" "max 1 (Suc i) = Suc i"
    by simp_all
  with assms True show ?thesis
    by (simp add: events_from_def upt_conv_Cons)
next
  case False
  then show ?thesis
    by (simp add: events_from_def)
qed

lemma app_loop_eq:
  "app_loop segments i (d, ints) =
     (foldl add_turn d (drop i segments), ints @ events_from segments i)"
proof (induction segments i "(d, ints)" arbitrary: d ints rule: app_loop.induct)
  case (1 segments i)
  show ?case
  proof (cases "i < length segments")
    case True
    have "app_loop segments i (d, ints)
        = app_loop segments (Suc i) (app_body segments i (d, ints))"
      using True by (subst app_loop.simps) simp
    also have "\<dots> = (foldl add_turn (add_turn d (segments ! i)) (drop (Suc i) segments),
        (ints @ (if 0 < i then pair_event (segments ! (i - 1)) (segments ! i) else []))
          @ events_from segments (Suc i))"
      unfolding app_body_eq using True by (intro "1.hyps") (simp_all add: app_body_eq)
    also have "\<dots> = (foldl add_turn d (drop i segments), ints @ events_from segments i)"
      using True by (simp add: events_from_step [OF True] Cons_nth_drop_Suc [symmetric])
    finally show ?thesis .
  next
    case False
    then show ?thesis
      by (subst app_loop.simps) (simp add: events_from_def)
  qed
qed

lemma app_analysis_eq:
  "app_analysis segments = (foldl add_turn [] segments, events_from segments 0)"
  by (simp add: app_analysis_def app_loop_eq)

lemma agent_body_eq:
  "agent_body segments i (d, ints) =
     (add_turn d (segments ! i),
      ints @ (if 0 < i then pair_event (segments ! (i - 1)) (segments ! i) else []))"
  by (simp add: agent_body_def add_turn_def pair_event_def Let_def split: prod.splits)

lemma agent_loop_eq:
  "agent_loop segments i (d, ints) =
     (foldl add_turn d (drop i segments), ints @ events_from segments i)"
proof (induction segments i "(d, ints)" arbitrary: d ints rule: agent_loop.induct)
  case (1 segments i)
  show ?case
  proof (cases "i < length segments")
    case True
    have "agent_loop segments i (d, ints)
        = agent_loop segments (Suc i) (agent_body segments i (d, ints))"
      using True by (subst agent_loop.simps) simp
    also have "\<dots> = (foldl add_turn (add_turn d (segments ! i)) (drop (Suc i) segments),
        (ints @ (if 0 < i then pair_event (segments ! (i - 1)) (segments ! i) else []))
          @ events_from segments (Suc i))"
      unfolding agent_body_eq using True by (intro "1.hyps") (simp_all add: agent_body_eq)
    also have "\<dots> = (foldl add_turn d (drop i segments), ints @ events_from segments i)"
      using True by (simp add: events_from_step [OF True] Cons_nth_drop_Suc [symmetric])
    finally show ?thesis .
  next
    case False
    then show ?thesis
      by (subst agent_loop.simps) (simp add: events_from_def)
  qed
qed

lemma agent_analysis_eq:
  "agent_analysis segments = (foldl add_turn [] segments, events_from segments 0)"
  by (simp add: agent_analysis_def agent_loop_eq)

lemma events_take:
  "i \<le> length segments \<Longrightarrow>
   events_from (take i segments) 0 =
     concat (map (\<lambda>j. pair_event (segments ! (j - 1)) (segments ! j)) [1..<i])"
  by (auto simp: events_from_def min_def intro!: arg_cong [where f = concat])

lemma events_take_Suc:
  assumes "0 < i" "i < length segments"
  shows "events_from (take (Suc i) segments) 0 =
     events_from (take i segments) 0 @ pair_event (segments ! (i - 1)) (segments ! i)"
proof -
  from assms have "[1..<Suc i] = [1..<i] @ [i]"
    by simp
  with assms show ?thesis
    by (simp add: events_take)
qed

lemma same_speaker_no_event:
  "snd (snd prev) = snd (snd cur) \<Longrightarrow> pair_event prev cur = []"
  by (auto simp: pair_event_def split: prod.splits)

subsection \<open>The dictionary of speaking times\<close>

lemma add_turn_alt: "add_turn d seg = iadd d (turn_speaker seg) (turn_duration seg)"
  by (simp add: add_turn_def turn_speaker_def turn_duration_def split: prod.splits)

lemma map_of_setitem: "map_of (setitem k v d) = (map_of d)(k \<mapsto> v)"
  by (induction d) auto

lemma keys_list_setitem:
  "map fst (setitem k v d) = (if k \<in> set (map fst d) then map fst d else map fst d @ [k])"
  by (induction d) (auto simp: image_iff, force)

lemma keys_setitem: "fst ` set (setitem k v d) = insert k (fst ` set d)"
proof -
  have "fst ` set (setitem k v d) = set (map fst (setitem k v d))"
    by simp
  also have "\<dots> = insert k (set (map fst d))"
    unfolding keys_list_setitem by auto
  finally show ?thesis
    by simp
qed

lemma distinct_setitem: "distinct (map fst d) \<Longrightarrow> distinct (map fst (setitem k v d))"
  by (simp add: keys_list_setitem)

lemma setitem_fresh: "k \<notin> fst ` set d \<Longrightarrow> setitem k v d = d @ [(k, v)]"
  by (induction d) auto

lemma getitem_fresh: "k \<notin> fst ` set d \<Longrightarrow> getitem d k = Fin 0"
  by (simp add: getitem_def map_of_eq_None_iff [THEN iffD2])

lemma getitem_iadd:
  "getitem (iadd d k v) s = (if s = k then fadd (getitem d k) v else getitem d s)"
  by (simp add: getitem_def iadd_def map_of_setitem)

lemma getitem_foldl:
  "getitem (foldl add_turn d segs) s =
     foldl fadd (getitem d s) (map turn_duration (filter (\<lambda>seg. turn_speaker seg = s) segs))"
  by (induction segs arbitrary: d) (auto simp: add_turn_alt getitem_iadd)

lemma keys_foldl:
  "fst ` set (foldl add_turn d segs) = fst ` set d \<union> turn_speaker ` set segs"
  by (induction segs arbitrary: d) (auto simp: add_turn_alt iadd_def keys_setitem)

lemma distinct_foldl:
  "distinct (map fst d) \<Longrightarrow> distinct (map fst (foldl add_turn d segs))"
  by (induction segs arbitrary: d) (auto simp: add_turn_alt iadd_def distinct_setitem)

lemma map_of_getitem:
  "map_of d s = (if s \<in> fst ` set d then Some (getitem d s) else None)"
  by (auto simp: getitem_def map_of_eq_None_iff split: option.splits)

text \<open>
  The total of a speaker is the sum of that speaker's durations, added from left to right
  in float arithmetic, starting from 0.0.
\<close>

lemma totals_lookup:
  "map_of (fst (app_analysis segs)) s =
     (if s \<in> turn_speaker ` set segs
      then Some (foldl fadd (Fin 0)
                  (map turn_duration (filter (\<lambda>seg. turn_speaker seg = s) segs)))
      else None)"
  by (simp add: app_analysis_eq map_of_getitem [of "foldl add_turn [] segs"] keys_foldl
      getitem_foldl)
    (simp add: getitem_def)

lemma speaker_filter_conv:
  "filter (\<lambda>(_, _, speaker). speaker = s) xs = filter (\<lambda>seg. turn_speaker seg = s) xs"
  by (rule filter_cong) (auto simp: turn_speaker_def)

lemma turn_speaker_fun: "turn_speaker = (\<lambda>(_, _, speaker). speaker)"
  by (simp add: fun_eq_iff turn_speaker_def)

lemma turn_duration_fun:
  "turn_duration = (\<lambda>(turn, _, _). fsub (end_t turn) (start turn))"
  by (simp add: fun_eq_iff turn_duration_def)

lemma speaker_in_iff:
  "s \<in> turn_speaker ` set xs \<longleftrightarrow> filter (\<lambda>seg. turn_speaker seg = s) xs \<noteq> []"
  by (auto simp: filter_empty_conv)

subsection \<open>Signs under rounding\<close>






subsection \<open>Speaker labels\<close>

lemma digit_inj: "a < 10 \<Longrightarrow> b < 10 \<Longrightarrow> digit a = digit b \<longleftrightarrow> a = b"
  by (simp add: digit_def nth_eq_iff_index_eq)

lemma decimal_small: "n < 10 \<Longrightarrow> decimal n = [digit n]"
  by (subst decimal.simps) simp

lemma decimal_large: "\<not> n < 10 \<Longrightarrow> decimal n = decimal (n div 10) @ [digit (n mod 10)]"
  by (subst decimal.simps) simp

lemma decimal_not_Nil: "decimal n \<noteq> []"
  by (cases "n < 10") (simp_all add: decimal_small decimal_large)

lemma decimal_inj: "decimal m = decimal n \<Longrightarrow> m = n"
proof (induction m arbitrary: n rule: decimal.induct)
  case (1 m)
  show ?case
  proof (cases "m < 10")
    case m: True
    show ?thesis
    proof (cases "n < 10")
      case True
      with m "1.prems" show ?thesis
        by (simp add: decimal_small digit_inj)
    next
      case False
      with m "1.prems" decimal_not_Nil [of "n div 10"] show ?thesis
        by (simp add: decimal_small decimal_large)
    qed
  next
    case m: False
    show ?thesis
    proof (cases "n < 10")
      case True
      with m "1.prems" decimal_not_Nil [of "m div 10"] show ?thesis
        by (simp add: decimal_small decimal_large)
    next
      case False
      with m "1.prems" have eq: "decimal (m div 10) = decimal (n div 10)"
        and last: "digit (m mod 10) = digit (n mod 10)"
        by (simp_all add: decimal_large)
      from eq have "m div 10 = n div 10"
        using m by (intro "1.IH") simp_all
      moreover from last have "m mod 10 = n mod 10"
        by (simp add: digit_inj)
      ultimately show ?thesis
        by (metis div_mult_mod_eq)
    qed
  qed
qed

text \<open>A number above 9 is printed without a leading zero, so no padded number equals it.\<close>

lemma hd_decimal: "0 < n \<Longrightarrow> hd (decimal n) \<noteq> CHR ''0''"
proof (induction n rule: decimal.induct)
  case (1 n)
  show ?case
  proof (cases "n < 10")
    case True
    have "digit 0 = CHR ''0''"
      by (simp add: digit_def)
    with True "1.prems" digit_inj [of n 0] show ?thesis
      by (auto simp add: decimal_small)
  next
    case False
    then have "0 < n div 10"
      by simp
    with False "1.IH" have "hd (decimal (n div 10)) \<noteq> CHR ''0''"
      by simp
    with False show ?thesis
      by (simp add: decimal_large decimal_not_Nil)
  qed
qed

lemma format_02d_eq:
  "format_02d n = (if n < 10 then [CHR ''0'', digit n] else decimal n)"
proof (cases "n < 10")
  case True
  then show ?thesis
    by (simp add: format_02d_def decimal_small numeral_2_eq_2)
next
  case False
  then have "2 \<le> length (decimal n)"
    using decimal_not_Nil [of "n div 10"]
    by (simp add: decimal_large Suc_le_eq)
  with False show ?thesis
    by (simp add: format_02d_def)
qed

lemma format_02d_inj: "format_02d m = format_02d n \<Longrightarrow> m = n"
proof -
  assume eq: "format_02d m = format_02d n"
  have pad: False if "a < 10" "\<not> b < 10" "[CHR ''0'', digit a] = decimal b" for a b
  proof -
    from that(2) have "0 < b"
      by simp
    then have "hd (decimal b) \<noteq> CHR ''0''"
      by (rule hd_decimal)
    with that(3) show False
      by (metis list.sel(1))
  qed
  show ?thesis
  proof (cases "m < 10"; cases "n < 10")
    assume "m < 10" "n < 10"
    with eq show ?thesis
      by (simp add: format_02d_eq digit_inj)
  next
    assume "m < 10" "\<not> n < 10"
    with eq pad [of m n] show ?thesis
      by (simp add: format_02d_eq)
  next
    assume "\<not> m < 10" "n < 10"
    with eq pad [of n m] show ?thesis
      by (simp add: format_02d_eq)
  next
    assume "\<not> m < 10" "\<not> n < 10"
    with eq show ?thesis
      by (simp add: format_02d_eq decimal_inj)
  qed
qed

lemma speaker_label_inj: "speaker_label m = speaker_label n \<longleftrightarrow> m = n"
  by (auto simp: speaker_label_def dest: format_02d_inj)

lemma distinct_labels: "distinct (map speaker_label [n..<m])"
  by (simp add: distinct_map inj_on_def speaker_label_inj)

subsection \<open>voice_ai_agent_custom.py\<close>

lemma custom_body_eq:
  "custom_body segments i (d, ints) =
     (add_entry d (segments ! i),
      ints @ (if 0 < i then entry_event (segments ! (i - 1)) (segments ! i) else []))"
  by (simp add: custom_body_def add_entry_def entry_event_def Let_def)

lemma entry_events_from_step:
  assumes "i < length segments"
  shows "entry_events_from segments i =
     (if 0 < i then entry_event (segments ! (i - 1)) (segments ! i) else [])
       @ entry_events_from segments (Suc i)"
proof (cases "0 < i")
  case True
  then have "max 1 i = i" "max 1 (Suc i) = Suc i"
    by simp_all
  with assms True show ?thesis
    by (simp add: entry_events_from_def upt_conv_Cons)
next
  case False
  then show ?thesis
    by (simp add: entry_events_from_def)
qed

lemma custom_loop_eq:
  "custom_loop segments i (d, ints) =
     (foldl add_entry d (drop i segments), ints @ entry_events_from segments i)"
proof (induction segments i "(d, ints)" arbitrary: d ints rule: custom_loop.induct)
  case (1 segments i)
  show ?case
  proof (cases "i < length segments")
    case True
    have "custom_loop segments i (d, ints)
        = custom_loop segments (Suc i) (custom_body segments i (d, ints))"
      using True by (subst custom_loop.simps) simp
    also have "\<dots> = (foldl add_entry (add_entry d (segments ! i)) (drop (Suc i) segments),
        (ints @ (if 0 < i then entry_event (segments ! (i - 1)) (segments ! i) else []))
          @ entry_events_from segments (Suc i))"
      unfolding custom_body_eq using True by (intro "1.hyps") (simp_all add: custom_body_eq)
    also have "\<dots> = (foldl add_entry d (drop i segments), ints @ entry_events_from segments i)"
      using True by (simp add: entry_events_from_step [OF True] Cons_nth_drop_Suc [symmetric])
    finally show ?thesis .
  next
    case False
    then show ?thesis
      by (subst custom_loop.simps) (simp add: entry_events_from_def)
  qed
qed

lemma analyze_eq:
  "analyze_speakers_and_interruptions segmentation =
     (foldl add_entry [] (convert segmentation []),
      entry_events_from (convert segmentation []) 0)"
  by (simp add: analyze_speakers_and_interruptions_def custom_loop_eq)

lemma convert_eq:
  "convert items segments = segments @ label_from (length segments) (accepted_segments items)"
proof (induction items arbitrary: segments)
  case Nil
  then show ?case
    by simp
next
  case (Cons it items)
  show ?case
  proof (cases it)
    case (Tuple objs)
    show ?thesis
    proof (cases objs)
      case Nil
      with Tuple Cons show ?thesis
        by simp
    next
      case (Cons obj rest)
      with Tuple Cons.IH show ?thesis
        by (cases obj) simp_all
    qed
  next
    case (NotTuple obj)
    with Cons show ?thesis
      by simp
  qed
qed

lemma length_label_from: "length (label_from n ss) = length ss"
  by (induction ss arbitrary: n) simp_all

lemma speakers_label_from:
  "map entry_speaker (label_from n ss) = map speaker_label [n..<n + length ss]"
proof (induction ss arbitrary: n)
  case Nil
  then show ?case
    by simp
next
  case (Cons s ss)
  have "[n..<n + length (s # ss)] = n # [Suc n..<Suc n + length ss]"
    by (subst upt_rec) simp
  with Cons show ?case
    by simp
qed

lemma entry_speaker_convert:
  "i < length (convert segmentation []) \<Longrightarrow>
   entry_speaker (convert segmentation [] ! i) = speaker_label i"
proof -
  assume i: "i < length (convert segmentation [])"
  have "map entry_speaker (convert segmentation []) =
      map speaker_label [0..<length (convert segmentation [])]"
    by (simp add: convert_eq speakers_label_from length_label_from)
  then have "map entry_speaker (convert segmentation []) ! i =
      map speaker_label [0..<length (convert segmentation [])] ! i"
    by simp
  with i show ?thesis
    by simp
qed

text \<open>On fresh, pairwise different keys the fold appends one entry for each segment.\<close>

lemma foldl_add_entry_fresh:
  "distinct (map entry_speaker segs) \<Longrightarrow>
   set (map entry_speaker segs) \<inter> fst ` set d = {} \<Longrightarrow>
   foldl add_entry d segs =
     d @ map (\<lambda>e. (entry_speaker e, fadd (Fin 0) (fsub (entry_end e) (entry_start e)))) segs"
proof (induction segs arbitrary: d)
  case Nil
  then show ?case
    by simp
next
  case (Cons e segs)
  from Cons.prems have fresh: "entry_speaker e \<notin> fst ` set d"
    by auto
  then have step: "add_entry d e =
      d @ [(entry_speaker e, fadd (Fin 0) (fsub (entry_end e) (entry_start e)))]"
    by (simp add: add_entry_def iadd_def setitem_fresh getitem_fresh)
  have "set (map entry_speaker segs) \<inter> fst ` set (add_entry d e) = {}"
    using Cons.prems unfolding step by auto
  with Cons.IH [of "add_entry d e"] Cons.prems show ?case
    by (simp add: step)
qed

section \<open>Evaluation\<close>

lemmas fl_eval = fl_of_def binary_exponent.simps half_even_def Let_def

lemmas app_eval = app_analysis_def app_loop.simps app_body_def iadd_def getitem_def fsub_def

lemmas agent_eval = agent_analysis_def agent_loop.simps agent_body_def iadd_def getitem_def
  fsub_def

lemmas custom_eval = analyze_speakers_and_interruptions_def custom_loop.simps custom_body_def
  iadd_def getitem_def fsub_def speaker_label_def format_02d_def decimal.simps digit_def

section \<open>Malformed turns\<close>

text \<open>
  C1, as stated, fails. The turn from 5 to 3 seconds ends before it starts, and the analysis
  of app.py still returns a report: the duration -2.0 is the total of the speaker.
\<close>

theorem negative_duration_accepted:
  "flt (end_t \<lparr>start = Fin 5, end_t = Fin 3\<rparr>) (start \<lparr>start = Fin 5, end_t = Fin 3\<rparr>)
   \<and> app_report [(\<lparr>start = Fin 5, end_t = Fin 3\<rparr>, ''A'', ''X'')]
     = \<lparr>total_speakers = 1, speaking_times = [(''X'', Fin (- 2))],
        total_interruptions = 0, interruptions = []\<rparr>"
  by (simp add: app_report_def format_report_def app_eval fl_eval)

text \<open>
  C1, amended. The loop has no check on a turn and nothing in it raises: whatever the start
  and the end of a turn, the turn adds \<open>end - start\<close> to the running total of its speaker,
  a negative duration included, and the analysis goes on to its report.
\<close>

theorem accumulator_adds_every_duration:
  "fst (app_analysis (segments @ [(turn, track, speaker)]))
     = iadd (fst (app_analysis segments)) speaker (fsub (end_t turn) (start turn))"
  by (simp add: app_analysis_eq add_turn_def)

section \<open>The interruption rule\<close>

text \<open>
  C2. The interruptions are, in order, what the adjacent pairs \<open>(i - 1, i)\<close> for
  \<open>i = 1, ..., n - 1\<close> give: a pair gives one event exactly when the current turn starts
  before the previous one ends and the speakers differ, and nothing otherwise; the event
  carries the rounded start of the current turn, the current speaker as interrupter, the
  previous speaker as interrupted, and the rounded difference of the previous end and the
  current start.
\<close>

theorem interruptions_are_adjacent_overlaps:
  "snd (app_analysis segments) =
     concat (map (\<lambda>i.
        case segments ! (i - 1) of (previous, _, previous_speaker) \<Rightarrow>
        case segments ! i of (current, _, current_speaker) \<Rightarrow>
          if flt (start current) (end_t previous) \<and> current_speaker \<noteq> previous_speaker
          then [\<lparr>time = py_round2 (start current),
                 interrupter = current_speaker,
                 interrupted = previous_speaker,
                 overlap_duration = py_round2 (fsub (end_t previous) (start current))\<rparr>]
          else [])
       [1..<length segments])"
  by (simp add: app_analysis_eq events_from_def pair_event_def)

text \<open>
  C7. The turns A(0, 5, X), B(3, 8, Y), C(10, 12, X) give one interruption, of X by Y at
  3.0 with an overlap of 2.0; C starts at 10, not before the end of B at 8.
\<close>

theorem three_turn_example:
  "snd (app_analysis
     [(\<lparr>start = Fin 0, end_t = Fin 5\<rparr>, ''A'', ''X''),
      (\<lparr>start = Fin 3, end_t = Fin 8\<rparr>, ''B'', ''Y''),
      (\<lparr>start = Fin 10, end_t = Fin 12\<rparr>, ''C'', ''X'')])
     = [\<lparr>time = Fin 3, interrupter = ''Y'', interrupted = ''X'', overlap_duration = Fin 2\<rparr>]
   \<and> \<not> flt (Fin 10) (Fin 8)"
  by (simp add: app_eval fl_eval)

section \<open>Overlapping turns of one speaker\<close>

text \<open>
  C3, as stated, fails for the custom script. It never reads a speaker from its input: the
  two overlapping segments (0, 5) and (3, 8), both arriving with the label X, are named
  SPEAKER_00 and SPEAKER_01, and the second is reported as interrupting the first.
\<close>

theorem custom_same_label_interruption:
  "analyze_speakers_and_interruptions
     [Tuple [SegmentObj \<lparr>start = Fin 0, end_t = Fin 5\<rparr>, OtherObj ''X''],
      Tuple [SegmentObj \<lparr>start = Fin 3, end_t = Fin 8\<rparr>, OtherObj ''X'']]
   = ([(''SPEAKER_00'', Fin 5), (''SPEAKER_01'', Fin 5)],
      [\<lparr>time = Fin 3, interrupter = ''SPEAKER_01'', interrupted = ''SPEAKER_00'',
        overlap_duration = Fin 2\<rparr>])"
  by (simp add: custom_eval fl_eval)

text \<open>
  C3, amended. In app.py and in voice_ai_agent.py a turn with the speaker of the turn before
  it adds no interruption, overlapping or not: the interruptions after turn \<open>i\<close> are the
  interruptions before it. The custom script has no such case: it labels the kept segments
  itself, by their position, and every adjacent pair of kept segments \<open>(i - 1, i)\<close> gives
  an interruption of SPEAKER (i - 1) by SPEAKER i exactly when segment \<open>i\<close> starts before
  segment \<open>i - 1\<close> ends, whatever else their tuples carry; so do the two segments of a
  two-segment input.
\<close>

theorem same_speaker_pairs:
  "(0 < i \<and> i < length segments
      \<and> snd (snd (segments ! (i - 1))) = snd (snd (segments ! i)) \<longrightarrow>
      snd (app_analysis (take (Suc i) segments)) = snd (app_analysis (take i segments))
      \<and> snd (agent_analysis (take (Suc i) segments)) = snd (agent_analysis (take i segments)))
   \<and> (flt (start t2) (end_t t1) \<longrightarrow>
      snd (analyze_speakers_and_interruptions
            [Tuple (SegmentObj t1 # rest1), Tuple (SegmentObj t2 # rest2)]) =
        [\<lparr>time = py_round2 (start t2), interrupter = ''SPEAKER_01'',
          interrupted = ''SPEAKER_00'',
          overlap_duration = py_round2 (fsub (end_t t1) (start t2))\<rparr>])
   \<and> snd (analyze_speakers_and_interruptions segmentation) =
       concat (map (\<lambda>i.
          if flt (entry_start (convert segmentation [] ! i))
                 (entry_end (convert segmentation [] ! (i - 1)))
          then [\<lparr>time = py_round2 (entry_start (convert segmentation [] ! i)),
                 interrupter = speaker_label i,
                 interrupted = speaker_label (i - 1),
                 overlap_duration =
                   py_round2 (fsub (entry_end (convert segmentation [] ! (i - 1)))
                                   (entry_start (convert segmentation [] ! i)))\<rparr>]
          else [])
         [1..<length (convert segmentation [])])"
proof (intro conjI impI)
  assume a: "0 < i \<and> i < length segments
      \<and> snd (snd (segments ! (i - 1))) = snd (snd (segments ! i))"
  then have "pair_event (segments ! (i - 1)) (segments ! i) = []"
    by (simp add: same_speaker_no_event)
  with a have "events_from (take (Suc i) segments) 0 = events_from (take i segments) 0"
    by (simp add: events_take_Suc)
  then show "snd (app_analysis (take (Suc i) segments)) = snd (app_analysis (take i segments))"
    and "snd (agent_analysis (take (Suc i) segments)) = snd (agent_analysis (take i segments))"
    by (simp_all add: app_analysis_eq agent_analysis_eq)
next
  assume "flt (start t2) (end_t t1)"
  then show "snd (analyze_speakers_and_interruptions
            [Tuple (SegmentObj t1 # rest1), Tuple (SegmentObj t2 # rest2)]) =
        [\<lparr>time = py_round2 (start t2), interrupter = ''SPEAKER_01'',
          interrupted = ''SPEAKER_00'',
          overlap_duration = py_round2 (fsub (end_t t1) (start t2))\<rparr>]"
    by (simp add: analyze_eq entry_events_from_def entry_event_def speaker_label_def
        format_02d_def decimal.simps digit_def)
next
  let ?segs = "convert segmentation []"
  have pair: "entry_event (?segs ! (j - 1)) (?segs ! j) =
      (if flt (entry_start (?segs ! j)) (entry_end (?segs ! (j - 1)))
        then [\<lparr>time = py_round2 (entry_start (?segs ! j)),
               interrupter = speaker_label j,
               interrupted = speaker_label (j - 1),
               overlap_duration =
                 py_round2 (fsub (entry_end (?segs ! (j - 1))) (entry_start (?segs ! j)))\<rparr>]
        else [])"
    if "j \<in> set [1..<length ?segs]" for j
  proof -
    from that have cur: "j < length ?segs" and prev: "j - 1 < length ?segs"
      by auto
    show ?thesis
      by (simp only: entry_event_def entry_speaker_convert [OF cur]
          entry_speaker_convert [OF prev])
  qed
  have first: "max 1 (0::nat) = 1"
    by simp
  have "snd (analyze_speakers_and_interruptions segmentation) =
      concat (map (\<lambda>j. entry_event (?segs ! (j - 1)) (?segs ! j)) [1..<length ?segs])"
    unfolding analyze_eq snd_conv entry_events_from_def first by (rule refl)
  also have "map (\<lambda>j. entry_event (?segs ! (j - 1)) (?segs ! j)) [1..<length ?segs] =
      map (\<lambda>i.
        if flt (entry_start (?segs ! i)) (entry_end (?segs ! (i - 1)))
        then [\<lparr>time = py_round2 (entry_start (?segs ! i)),
               interrupter = speaker_label i,
               interrupted = speaker_label (i - 1),
               overlap_duration =
                 py_round2 (fsub (entry_end (?segs ! (i - 1))) (entry_start (?segs ! i)))\<rparr>]
        else []) [1..<length ?segs]"
    by (rule map_cong [OF refl]) (rule pair)
  finally show "snd (analyze_speakers_and_interruptions segmentation) =
       concat (map (\<lambda>i.
          if flt (entry_start (?segs ! i)) (entry_end (?segs ! (i - 1)))
          then [\<lparr>time = py_round2 (entry_start (?segs ! i)),
                 interrupter = speaker_label i,
                 interrupted = speaker_label (i - 1),
                 overlap_duration =
                   py_round2 (fsub (entry_end (?segs ! (i - 1))) (entry_start (?segs ! i)))\<rparr>]
          else [])
         [1..<length ?segs])" .
qed

text \<open>
  The turns A(0, 5, X), B(3, 8, X) of the specification: no interruption in app.py and in
  voice_ai_agent.py, one in the custom script. With a third segment (6, 9) the custom script
  reports both adjacent overlaps, the second of SPEAKER_01 by SPEAKER_02.
\<close>

theorem same_speaker_pairs_witness:
  "snd (app_analysis
     [(\<lparr>start = Fin 0, end_t = Fin 5\<rparr>, ''A'', ''X''),
      (\<lparr>start = Fin 3, end_t = Fin 8\<rparr>, ''B'', ''X'')]) = []
   \<and> snd (agent_analysis
     [(\<lparr>start = Fin 0, end_t = Fin 5\<rparr>, ''A'', ''X''),
      (\<lparr>start = Fin 3, end_t = Fin 8\<rparr>, ''B'', ''X'')]) = []
   \<and> flt (Fin 3) (Fin 5)
   \<and> snd (analyze_speakers_and_interruptions
     [Tuple [SegmentObj \<lparr>start = Fin 0, end_t = Fin 5\<rparr>, OtherObj ''X''],
      Tuple [SegmentObj \<lparr>start = Fin 3, end_t = Fin 8\<rparr>, OtherObj ''X'']])
     = [\<lparr>time = py_round2 (Fin 3), interrupter = ''SPEAKER_01'', interrupted = ''SPEAKER_00'',
        overlap_duration = py_round2 (fsub (Fin 5) (Fin 3))\<rparr>]
   \<and> snd (analyze_speakers_and_interruptions
     [Tuple [SegmentObj \<lparr>start = Fin 0, end_t = Fin 5\<rparr>, OtherObj ''X''],
      Tuple [SegmentObj \<lparr>start = Fin 3, end_t = Fin 8\<rparr>, OtherObj ''X''],
      Tuple [SegmentObj \<lparr>start = Fin 6, end_t = Fin 9\<rparr>, OtherObj ''X'']])
     = [\<lparr>time = Fin 3, interrupter = ''SPEAKER_01'', interrupted = ''SPEAKER_00'',
        overlap_duration = Fin 2\<rparr>,
        \<lparr>time = Fin 6, interrupter = ''SPEAKER_02'', interrupted = ''SPEAKER_01'',
        overlap_duration = Fin 2\<rparr>]"
  using same_speaker_pairs [of 1
      "[(\<lparr>start = Fin 0, end_t = Fin 5\<rparr>, ''A'', ''X''),
        (\<lparr>start = Fin 3, end_t = Fin 8\<rparr>, ''B'', ''X'')]"
      "\<lparr>start = Fin 3, end_t = Fin 8\<rparr>" "\<lparr>start = Fin 0, end_t = Fin 5\<rparr>"
      "[OtherObj ''X'']" "[OtherObj ''X'']"
      "[Tuple [SegmentObj \<lparr>start = Fin 0, end_t = Fin 5\<rparr>, OtherObj ''X''],
        Tuple [SegmentObj \<lparr>start = Fin 3, end_t = Fin 8\<rparr>, OtherObj ''X''],
        Tuple [SegmentObj \<lparr>start = Fin 6, end_t = Fin 9\<rparr>, OtherObj ''X'']]"]
  by (simp add: app_eval agent_eval speaker_label_def format_02d_def decimal.simps digit_def
      fl_eval upt_rec)

section \<open>The overlap of an interruption\<close>




section \<open>The order of the turns\<close>

text \<open>
  C5, as stated, fails. Float addition is not associative. Three turns of X last 0.1, 0.2
  and 0.3 seconds (the fractions below are the floats nearest to these decimals). In this
  order the total of X is 0.6000000000000001; in the reverse order, a permutation, it is 0.6.
\<close>

theorem totals_depend_on_order:
  "mset [(\<lparr>start = Fin 0, end_t = Fin (3602879701896397 / 2 ^ 55)\<rparr>, ''A'', ''X''),
         (\<lparr>start = Fin 0, end_t = Fin (3602879701896397 / 2 ^ 54)\<rparr>, ''B'', ''X''),
         (\<lparr>start = Fin 0, end_t = Fin (5404319552844595 / 2 ^ 54)\<rparr>, ''C'', ''X'')]
   = mset [(\<lparr>start = Fin 0, end_t = Fin (5404319552844595 / 2 ^ 54)\<rparr>, ''C'', ''X''),
         (\<lparr>start = Fin 0, end_t = Fin (3602879701896397 / 2 ^ 54)\<rparr>, ''B'', ''X''),
         (\<lparr>start = Fin 0, end_t = Fin (3602879701896397 / 2 ^ 55)\<rparr>, ''A'', ''X'')]
   \<and> fst (app_analysis
        [(\<lparr>start = Fin 0, end_t = Fin (3602879701896397 / 2 ^ 55)\<rparr>, ''A'', ''X''),
         (\<lparr>start = Fin 0, end_t = Fin (3602879701896397 / 2 ^ 54)\<rparr>, ''B'', ''X''),
         (\<lparr>start = Fin 0, end_t = Fin (5404319552844595 / 2 ^ 54)\<rparr>, ''C'', ''X'')])
     = [(''X'', Fin (5404319552844596 / 2 ^ 53))]
   \<and> fst (app_analysis
        [(\<lparr>start = Fin 0, end_t = Fin (5404319552844595 / 2 ^ 54)\<rparr>, ''C'', ''X''),
         (\<lparr>start = Fin 0, end_t = Fin (3602879701896397 / 2 ^ 54)\<rparr>, ''B'', ''X''),
         (\<lparr>start = Fin 0, end_t = Fin (3602879701896397 / 2 ^ 55)\<rparr>, ''A'', ''X'')])
     = [(''X'', Fin (5404319552844595 / 2 ^ 53))]
   \<and> Fin (5404319552844596 / 2 ^ 53) \<noteq> Fin (5404319552844595 / 2 ^ 53)
   \<and> fl_of (1 / 10) = Fin (3602879701896397 / 2 ^ 55)
   \<and> fl_of (2 / 10) = Fin (3602879701896397 / 2 ^ 54)
   \<and> fl_of (3 / 10) = Fin (5404319552844595 / 2 ^ 54)
   \<and> fl_of (6 / 10) = Fin (5404319552844595 / 2 ^ 53)"
  by (simp add: app_eval fl_eval)

text \<open>
  C5, amended. The total of a speaker is the float sum of that speaker's durations
  \<open>end - start\<close>, added from left to right starting from 0.0; a speaker without a turn
  has no total. A permutation of the turns leaves the set of speakers as it is, and two
  sequences in which every speaker has the same turns in the same relative order give the
  same mapping; how the turns of different speakers are interleaved does not matter.
\<close>

theorem totals_of_reordered_turns:
  "map_of (fst (app_analysis xs)) s =
     (if s \<in> (\<lambda>(_, _, speaker). speaker) ` set xs
      then Some (foldl fadd (Fin 0)
                  (map (\<lambda>(turn, _, _). fsub (end_t turn) (start turn))
                     (filter (\<lambda>(_, _, speaker). speaker = s) xs)))
      else None)
   \<and> (mset xs = mset ys \<longrightarrow>
      fst ` set (fst (app_analysis xs)) = fst ` set (fst (app_analysis ys)))
   \<and> ((\<forall>s. filter (\<lambda>(_, _, speaker). speaker = s) xs
            = filter (\<lambda>(_, _, speaker). speaker = s) ys) \<longrightarrow>
      map_of (fst (app_analysis xs)) = map_of (fst (app_analysis ys)))"
proof (intro conjI impI)
  show "map_of (fst (app_analysis xs)) s =
     (if s \<in> (\<lambda>(_, _, speaker). speaker) ` set xs
      then Some (foldl fadd (Fin 0)
                  (map (\<lambda>(turn, _, _). fsub (end_t turn) (start turn))
                     (filter (\<lambda>(_, _, speaker). speaker = s) xs)))
      else None)"
    unfolding speaker_filter_conv
    by (simp add: totals_lookup turn_speaker_fun [symmetric] turn_duration_fun [symmetric])
next
  assume "mset xs = mset ys"
  then have "set xs = set ys"
    by (rule mset_eq_setD)
  then show "fst ` set (fst (app_analysis xs)) = fst ` set (fst (app_analysis ys))"
    by (simp add: app_analysis_eq keys_foldl)
next
  assume "\<forall>s. filter (\<lambda>(_, _, speaker). speaker = s) xs
      = filter (\<lambda>(_, _, speaker). speaker = s) ys"
  then have same: "filter (\<lambda>seg. turn_speaker seg = s) xs
      = filter (\<lambda>seg. turn_speaker seg = s) ys" for s
    by (simp add: speaker_filter_conv)
  show "map_of (fst (app_analysis xs)) = map_of (fst (app_analysis ys))"
  proof
    fix s
    show "map_of (fst (app_analysis xs)) s = map_of (fst (app_analysis ys)) s"
      by (simp add: totals_lookup speaker_in_iff same)
  qed
qed

text \<open>
  Two speakers in either order: the dictionaries differ in their order only. X speaks twice,
  for 1 and for 2 seconds, and has the total 3.0; Z does not speak and has none.
\<close>

theorem totals_of_reordered_turns_witness:
  "map_of (fst (app_analysis
     [(\<lparr>start = Fin 0, end_t = Fin 1\<rparr>, ''A'', ''X''),
      (\<lparr>start = Fin 1, end_t = Fin 3\<rparr>, ''B'', ''Y''),
      (\<lparr>start = Fin 3, end_t = Fin 5\<rparr>, ''C'', ''X'')])) ''X'' = Some (Fin 3)
   \<and> map_of (fst (app_analysis
     [(\<lparr>start = Fin 0, end_t = Fin 1\<rparr>, ''A'', ''X''),
      (\<lparr>start = Fin 1, end_t = Fin 3\<rparr>, ''B'', ''Y''),
      (\<lparr>start = Fin 3, end_t = Fin 5\<rparr>, ''C'', ''X'')])) ''Z'' = None
   \<and> fst ` set (fst (app_analysis
     [(\<lparr>start = Fin 0, end_t = Fin 1\<rparr>, ''A'', ''X''),
      (\<lparr>start = Fin 1, end_t = Fin 3\<rparr>, ''B'', ''Y''),
      (\<lparr>start = Fin 3, end_t = Fin 5\<rparr>, ''C'', ''X'')]))
     = fst ` set (fst (app_analysis
     [(\<lparr>start = Fin 1, end_t = Fin 3\<rparr>, ''B'', ''Y''),
      (\<lparr>start = Fin 0, end_t = Fin 1\<rparr>, ''A'', ''X''),
      (\<lparr>start = Fin 3, end_t = Fin 5\<rparr>, ''C'', ''X'')]))
   \<and> map_of (fst (app_analysis
     [(\<lparr>start = Fin 0, end_t = Fin 1\<rparr>, ''A'', ''X''),
      (\<lparr>start = Fin 1, end_t = Fin 3\<rparr>, ''B'', ''Y''),
      (\<lparr>start = Fin 3, end_t = Fin 5\<rparr>, ''C'', ''X'')]))
     = map_of (fst (app_analysis
     [(\<lparr>start = Fin 1, end_t = Fin 3\<rparr>, ''B'', ''Y''),
      (\<lparr>start = Fin 0, end_t = Fin 1\<rparr>, ''A'', ''X''),
      (\<lparr>start = Fin 3, end_t = Fin 5\<rparr>, ''C'', ''X'')]))"
proof -
  let ?xs = "[(\<lparr>start = Fin 0, end_t = Fin 1\<rparr>, ''A'', ''X''),
      (\<lparr>start = Fin 1, end_t = Fin 3\<rparr>, ''B'', ''Y''),
      (\<lparr>start = Fin 3, end_t = Fin 5\<rparr>, ''C'', ''X'')]"
  let ?ys = "[(\<lparr>start = Fin 1, end_t = Fin 3\<rparr>, ''B'', ''Y''),
      (\<lparr>start = Fin 0, end_t = Fin 1\<rparr>, ''A'', ''X''),
      (\<lparr>start = Fin 3, end_t = Fin 5\<rparr>, ''C'', ''X'')]"
  have perm: "mset ?xs = mset ?ys"
    by simp
  have order: "\<forall>s. filter (\<lambda>(_, _, speaker). speaker = s) ?xs
      = filter (\<lambda>(_, _, speaker). speaker = s) ?ys"
    by auto
  note total = totals_of_reordered_turns [of ?xs _ ?ys, THEN conjunct1]
  have "map_of (fst (app_analysis ?xs)) ''X'' = Some (Fin 3)"
    by (simp add: total fsub_def fl_eval)
  moreover have "map_of (fst (app_analysis ?xs)) ''Z'' = None"
    by (simp add: total)
  moreover from totals_of_reordered_turns [of ?xs "''X''" ?ys] perm order
  have "fst ` set (fst (app_analysis ?xs)) = fst ` set (fst (app_analysis ?ys))"
    and "map_of (fst (app_analysis ?xs)) = map_of (fst (app_analysis ?ys))"
    by blast+
  ultimately show ?thesis
    by blast
qed

section \<open>The copies of the analysis\<close>

text \<open>
  C6. On every list of segments the loop of app.py and the loop in \<open>main\<close> of
  voice_ai_agent.py leave the same speaking times and the same list of interruptions, and
  so the same report.
\<close>

theorem app_agent_same_analysis:
  "app_analysis segments = agent_analysis segments
   \<and> app_report segments = agent_report segments"
  by (simp add: app_analysis_eq agent_analysis_eq app_report_def agent_report_def)

section \<open>The report\<close>

text \<open>
  C8. The speaking times that the loop leaves have pairwise different keys, as every
  dictionary has. For such a mapping and any list of interruptions the report counts the
  keys as \<open>total_speakers\<close> and the interruptions as \<open>total_interruptions\<close>, and it keeps
  the keys in their order, each with its total rounded by \<open>round(t, 2)\<close>: a finite total
  \<open>x\<close> becomes the float nearest to the decimal with two places nearest to \<open>x\<close>.
\<close>

theorem report_counts_and_rounding:
  "distinct (map fst (fst (app_analysis segments)))
   \<and> (distinct (map fst totals) \<longrightarrow>
        total_speakers (format_report totals ints) = card (fst ` set totals)
      \<and> total_interruptions (format_report totals ints) = length ints
      \<and> map fst (speaking_times (format_report totals ints)) = map fst totals
      \<and> (\<forall>spk. map_of (speaking_times (format_report totals ints)) spk
                 = map_option py_round2 (map_of totals spk))
      \<and> (\<forall>spk x. map_of totals spk = Some (Fin x) \<longrightarrow>
            map_of (speaking_times (format_report totals ints)) spk
              = Some (fl_of (of_int (half_even (x * 100)) / 100))))"
proof (intro conjI impI allI)
  show "distinct (map fst (fst (app_analysis segments)))"
    by (simp add: app_analysis_eq distinct_foldl)
next
  assume "distinct (map fst totals)"
  then have "card (set (map fst totals)) = length (map fst totals)"
    by (rule distinct_card)
  then show "total_speakers (format_report totals ints) = card (fst ` set totals)"
    by (simp add: format_report_def)
next
  show "total_interruptions (format_report totals ints) = length ints"
    by (simp add: format_report_def)
next
  show "map fst (speaking_times (format_report totals ints)) = map fst totals"
    by (simp add: format_report_def comp_def case_prod_beta)
next
  fix spk
  show rounded: "map_of (speaking_times (format_report totals ints)) spk
      = map_option py_round2 (map_of totals spk)"
    by (simp add: format_report_def map_of_map)
  fix x
  assume "map_of totals spk = Some (Fin x)"
  with rounded show "map_of (speaking_times (format_report totals ints)) spk
      = Some (fl_of (of_int (half_even (x * 100)) / 100))"
    by simp
qed

text \<open>
  The totals 1.005 (the float just below it) and 0.125 are reported as 1.0 and 0.12 (the
  float nearest to it).
\<close>

theorem report_counts_and_rounding_witness:
  "total_speakers (format_report
      [(''X'', Fin (1131529406376837 / 2 ^ 50)), (''Y'', Fin (1 / 8))] []) = 2
   \<and> total_interruptions (format_report
      [(''X'', Fin (1131529406376837 / 2 ^ 50)), (''Y'', Fin (1 / 8))] []) = 0
   \<and> map_of (speaking_times (format_report
      [(''X'', Fin (1131529406376837 / 2 ^ 50)), (''Y'', Fin (1 / 8))] [])) ''X''
       = Some (Fin 1)
   \<and> map_of (speaking_times (format_report
      [(''X'', Fin (1131529406376837 / 2 ^ 50)), (''Y'', Fin (1 / 8))] [])) ''Y''
       = Some (Fin (1080863910568919 / 2 ^ 53))"
proof -
  let ?T = "[(''X'', Fin (1131529406376837 / 2 ^ 50)), (''Y'', Fin (1 / 8))]"
  have d: "distinct (map fst ?T)"
    by simp
  from report_counts_and_rounding [of "[]" ?T "[]"] d
  have n: "total_speakers (format_report ?T []) = card (fst ` set ?T)"
    and i: "total_interruptions (format_report ?T []) = length ([] :: interruption list)"
    and r: "\<And>spk x. map_of ?T spk = Some (Fin x) \<Longrightarrow>
          map_of (speaking_times (format_report ?T [])) spk
            = Some (fl_of (of_int (half_even (x * 100)) / 100))"
    by blast+
  have "card (fst ` set ?T) = 2"
    by simp
  with n have "total_speakers (format_report ?T []) = 2"
    by simp
  moreover from i have "total_interruptions (format_report ?T []) = 0"
    by simp
  moreover have "map_of (speaking_times (format_report ?T [])) ''X'' = Some (Fin 1)"
    using r [of "''X''" "1131529406376837 / 2 ^ 50"] by (simp add: fl_eval)
  moreover have "map_of (speaking_times (format_report ?T [])) ''Y''
      = Some (Fin (1080863910568919 / 2 ^ 53))"
    using r [of "''Y''" "1 / 8"] by (simp add: fl_eval)
  ultimately show ?thesis
    by blast
qed

section \<open>Empty input\<close>

text \<open>
  C9. With no turn at all the report has no speaker, no interruption, an empty mapping and
  an empty list, and the CSV file is the header line with the four column names alone.
\<close>

theorem empty_input_report:
  "app_report [] =
     \<lparr>total_speakers = 0, speaking_times = [], total_interruptions = 0, interruptions = []\<rparr>
   \<and> app_csv (interruptions (app_report [])) =
     [[Text ''time'', Text ''interrupter'', Text ''interrupted'', Text ''overlap_duration'']]"
  by (simp add: app_report_def format_report_def app_eval app_csv_def to_csv_def
      DataFrame_columns_def)

section \<open>The labels of the custom script\<close>

text \<open>
  C10. The segments kept by \<open>analyze_speakers_and_interruptions\<close> are labelled
  SPEAKER_00, SPEAKER_01, ... by their position, the labels are pairwise different, the
  speaking times have one key for each kept segment, in this order, and the report counts
  as many speakers as segments were kept. Nothing but the kept segments themselves enters
  the result: the input may be replaced by the bare segments.
\<close>

theorem custom_labels_distinct:
  "map entry_speaker (convert segmentation []) =
     map speaker_label [0..<length (convert segmentation [])]
   \<and> distinct (map entry_speaker (convert segmentation []))
   \<and> map fst (fst (analyze_speakers_and_interruptions segmentation)) =
       map entry_speaker (convert segmentation [])
   \<and> total_speakers (custom_report segmentation) = length (convert segmentation [])
   \<and> length (convert segmentation []) = length (accepted_segments segmentation)
   \<and> analyze_speakers_and_interruptions segmentation =
       analyze_speakers_and_interruptions
         (map (\<lambda>s. Tuple [SegmentObj s]) (accepted_segments segmentation))"
proof -
  let ?segs = "convert segmentation []"
  have segs: "?segs = label_from 0 (accepted_segments segmentation)"
    by (simp add: convert_eq)
  have labels: "map entry_speaker ?segs = map speaker_label [0..<length ?segs]"
    by (simp add: segs speakers_label_from length_label_from)
  have dist: "distinct (map entry_speaker ?segs)"
    unfolding labels by (rule distinct_labels)
  have totals: "fst (analyze_speakers_and_interruptions segmentation) =
      map (\<lambda>e. (entry_speaker e, fadd (Fin 0) (fsub (entry_end e) (entry_start e)))) ?segs"
    using foldl_add_entry_fresh [OF dist, of "[]"] by (simp add: analyze_eq)
  have keys: "map fst (fst (analyze_speakers_and_interruptions segmentation))
      = map entry_speaker ?segs"
    unfolding totals by (simp add: comp_def)
  have count: "total_speakers (custom_report segmentation) = length ?segs"
    using arg_cong [OF keys, of length]
    by (simp add: custom_report_def format_report_def case_prod_beta)
  have same: "accepted_segments (map (\<lambda>s. Tuple [SegmentObj s]) ss) = ss" for ss
    by (induction ss) simp_all
  have strip: "analyze_speakers_and_interruptions segmentation =
       analyze_speakers_and_interruptions
         (map (\<lambda>s. Tuple [SegmentObj s]) (accepted_segments segmentation))"
    by (simp add: analyze_eq convert_eq same)
  from labels dist keys count strip show ?thesis
    by (simp add: segs length_label_from)
qed

end
